theory Spec2Isabelle
  imports Complex_Main "HOL-Library.Log_Nat"
begin

section \<open>Numbers\<close>

text \<open>
  A JavaScript Number is an IEEE-754 binary64 value. The development models a finite
  Number by the real number it denotes. In the ticker every arithmetic operation is the
  exact operation followed by \<open>binary64\<close>, the rounding to the nearest double with
  ties to the even significand, and a decimal literal denotes the double nearest to it.
  The values of the ticker stay far below the overflow threshold, so the infinities and
  NaN are not modelled.

  The chart generator calls \<open>Math.sin\<close> and \<open>Math.pow\<close>, whose double results the
  language leaves to the implementation; it is modelled in exact real arithmetic. The
  exact y of a sample and the double the code computes can differ by a rounding error,
  so the chart theorems are those decided by the control flow on that y, or by margins
  far larger than a rounding error.
\<close>

definition pow2 :: "int \<Rightarrow> real" where
  "pow2 e = (if 0 \<le> e then 2 ^ nat e else 1 / 2 ^ nat (- e))"

definition expo :: "real \<Rightarrow> int" where
  \<comment> \<open>the binary exponent \<open>e\<close> with \<open>2^e \<le> |x| < 2^(e+1)\<close>, held at -1022 for subnormals\<close>
  "expo x =
     max (- 1022)
       (if 1 \<le> \<bar>x\<bar> then bitlen \<lfloor>\<bar>x\<bar>\<rfloor> - 1 else - bitlen (\<lceil>1 / \<bar>x\<bar>\<rceil> - 1))"

definition rne :: "real \<Rightarrow> int" where
  \<comment> \<open>round to the nearest integer, a tie to the even one\<close>
  "rne x =
     (let f = \<lfloor>x\<rfloor>; d = x - of_int f
      in if d < 1 / 2 then f else if 1 / 2 < d then f + 1 else if even f then f else f + 1)"

definition binary64 :: "real \<Rightarrow> real" where
  \<comment> \<open>53 significant bits: the spacing of doubles around \<open>x\<close> is \<open>2^(expo x - 52)\<close>\<close>
  "binary64 x = (let q = pow2 (expo x - 52) in of_int (rne (x / q)) * q)"

definition fmul :: "real \<Rightarrow> real \<Rightarrow> real" where
  "fmul x y = binary64 (x * y)"

definition fadd :: "real \<Rightarrow> real \<Rightarrow> real" where
  "fadd x y = binary64 (x + y)"

definition fsub :: "real \<Rightarrow> real \<Rightarrow> real" where
  "fsub x y = binary64 (x - y)"

definition isDouble :: "real \<Rightarrow> bool" where
  \<comment> \<open>the reals that are doubles: rounding leaves them as they are\<close>
  "isDouble x = (binary64 x = x)"

definition randomDraw :: "real \<Rightarrow> bool" where
  \<comment> \<open>a value \<open>Math.random()\<close> may return: a double, at least 0 and less than 1\<close>
  "randomDraw r = (isDouble r \<and> 0 \<le> r \<and> r < 1)"

section \<open>LiveTicker\<close>

text \<open>
  The object's numeric fields. The DOM containers and the currency formatter of the
  constructor hold no part of the value computation and are left out.
\<close>

record ticker =
  startValue :: real
  currentValue :: real
  volatility :: real
  driftBias :: real

text \<open>
  The \<open>config\<close> argument of the constructor: a field may be absent. \<open>a || b\<close> yields
  \<open>b\<close> when \<open>a\<close> is absent or zero.
\<close>

record config =
  cfg_startValue :: "real option"
  cfg_volatility :: "real option"

definition or_default :: "real option \<Rightarrow> real \<Rightarrow> real" where
  "or_default a b = (case a of None \<Rightarrow> b | Some v \<Rightarrow> if v = 0 then b else v)"

definition constructor :: "config \<Rightarrow> ticker" where
  "constructor cfg =
     (let sv = or_default (cfg_startValue cfg) (binary64 388752.65)
      in \<lparr> startValue = sv,
           currentValue = sv,
           volatility = or_default (cfg_volatility cfg) (binary64 5.00),
           driftBias = 0 \<rparr>)"

text \<open>The ticker the page creates when it has loaded.\<close>

definition pageTicker :: ticker where
  "pageTicker = constructor \<lparr> cfg_startValue = Some (binary64 388752.65),
                               cfg_volatility = Some (binary64 5.00) \<rparr>"

subsection \<open>getNextInterval\<close>

text \<open>
  The argument \<open>r\<close> is the value returned by the one call of \<open>Math.random()\<close>,
  a double with \<open>0 \<le> r < 1\<close>.
\<close>

definition getNextInterval :: "real \<Rightarrow> int" where
  "getNextInterval r =
     (let min = 800; max = 2400
      in \<lfloor>fadd (fmul r (fadd (fsub max min) 1)) min\<rfloor>)"

subsection \<open>calculateNextValue\<close>

text \<open>
  The values \<open>Math.random()\<close> returns during one call, in the order of the calls.
  The fourth call happens only when the third value exceeds 0.9.
\<close>

record draws =
  r_direction :: real
  r_change :: real
  r_trend :: real
  r_bias :: real

definition validDraws :: "draws \<Rightarrow> bool" where
  "validDraws d =
     (randomDraw (r_direction d) \<and> randomDraw (r_change d) \<and>
      randomDraw (r_trend d) \<and> randomDraw (r_bias d))"

definition direction :: "draws \<Rightarrow> real" where
  "direction d = (if r_direction d > binary64 0.5 then 1 else - 1)"

definition nextDriftBias :: "draws \<Rightarrow> ticker \<Rightarrow> real" where
  "nextDriftBias d t =
     (if r_trend d > binary64 0.9
      then (if r_bias d > binary64 0.5 then binary64 0.5 else - binary64 0.5)
      else driftBias t)"

definition change :: "draws \<Rightarrow> ticker \<Rightarrow> real" where
  \<comment> \<open>the local variable \<open>change\<close> as it stands when it is applied\<close>
  "change d t =
     (let change = fadd (fmul (r_change d) (volatility t)) (binary64 0.05);
          change = fadd change (nextDriftBias d t);
          diff = fsub (currentValue t) (startValue t)
      in if \<bar>diff\<bar> > 500 then fmul (- 1) (fmul diff (binary64 0.1)) else change)"

definition calculateNextValue :: "draws \<Rightarrow> ticker \<Rightarrow> ticker" where
  "calculateNextValue d t =
     t \<lparr> driftBias := nextDriftBias d t,
         currentValue := fadd (currentValue t) (fmul (change d t) (direction d)) \<rparr>"

subsection \<open>Inputs of the evaluations\<close>

text \<open>
  Tickers and draws at which the code is evaluated below: the page's ticker after its
  value has drifted 600 above the start value, a ticker configured with the volatility
  0.9, and draws that are doubles in [0,1).
\<close>

definition farTicker :: ticker where
  "farTicker = pageTicker \<lparr> currentValue := binary64 389352.65 \<rparr>"

definition awayDraws :: draws where
  "awayDraws = \<lparr> r_direction = 1 / 4, r_change = 1 / 2, r_trend = 1 / 2, r_bias = 1 / 2 \<rparr>"

definition slowTicker :: ticker where
  "slowTicker = constructor \<lparr> cfg_startValue = None, cfg_volatility = Some (binary64 0.9) \<rparr>"

definition biasDraws :: draws where
  "biasDraws = \<lparr> r_direction = 3 / 4, r_change = 0, r_trend = 15 / 16, r_bias = 1 / 4 \<rparr>"

definition smallDraws :: draws where
  "smallDraws = \<lparr> r_direction = 3 / 4, r_change = 3 / 32, r_trend = 15 / 16, r_bias = 1 / 4 \<rparr>"

definition zeroDraws :: draws where
  "zeroDraws = \<lparr> r_direction = 3 / 4, r_change = 1 / 2, r_trend = 15 / 16, r_bias = 1 / 4 \<rparr>"

definition stillDraws :: draws where
  "stillDraws = \<lparr> r_direction = 3 / 4, r_change = binary64 0.09, r_trend = 15 / 16, r_bias = 1 / 4 \<rparr>"

section \<open>Crash simulator\<close>

text \<open>The constants mapping to the SVG view box.\<close>

definition WIDTH :: real where "WIDTH = 800"
definition HEIGHT :: real where "HEIGHT = 350"
definition START_Y :: real where "START_Y = 150"
definition STOP_LOSS_DELTA :: real where "STOP_LOSS_DELTA = 30"
definition STOP_LOSS_Y :: real where "STOP_LOSS_Y = START_Y + STOP_LOSS_DELTA"

definition steps :: nat where "steps = 20"
definition stepSize :: real where "stepSize = WIDTH / real steps"

text \<open>
  A path string is kept as the list of its commands. A coordinate printed with
  \<open>toFixed(1)\<close> is kept as its number of tenths: the integer nearest to ten times the
  value, the larger one at a tie, on the magnitude of a negative value. A coordinate
  interpolated directly is kept as the number.
\<close>

datatype coord = Tenths int | Plain real

datatype pathCmd = M coord coord | L coord coord

definition toFixed1 :: "real \<Rightarrow> coord" where
  "toFixed1 x = Tenths (if x < 0 then - \<lfloor>- x * 10 + 1 / 2\<rfloor> else \<lfloor>x * 10 + 1 / 2\<rfloor>)"

text \<open>The local variables of \<open>generatePaths\<close> that the loop updates.\<close>

record locals =
  unpPathStr :: "pathCmd list"
  protPathStr :: "pathCmd list"
  unpPoints :: "(real \<times> real) list"
  protPoints :: "(real \<times> real) list"
  isStoppedOut_v :: bool
  stopOutX_v :: real

text \<open>The object \<open>generatePaths\<close> returns.\<close>

record chartData =
  unpPath :: "pathCmd list"
  protPath :: "pathCmd list"
  isStoppedOut :: bool
  stopOutX :: real
  finalUnpY :: real

text \<open>The values the loop body computes at step \<open>i\<close>, before the protected logic.\<close>

definition sampleX :: "nat \<Rightarrow> real" where
  "sampleX i = real i * stepSize"

definition noise :: "real \<Rightarrow> real" where
  "noise x = sin (x / 50) * 10"

definition crashDrop :: "real \<Rightarrow> real \<Rightarrow> real" where
  "crashDrop factor x = ((x / WIDTH) ^ 2 * 200) * factor"

definition sampleY :: "real \<Rightarrow> nat \<Rightarrow> real" where
  "sampleY factor i =
     (let x = sampleX i;
          y = START_Y + noise x + crashDrop factor x
      in min (max y 0) 350)"

definition body :: "real \<Rightarrow> nat \<Rightarrow> locals \<Rightarrow> locals" where
  "body factor i s =
     (let x = sampleX i;
          y = sampleY factor i;
          s = s \<lparr> unpPoints := unpPoints s @ [(x, y)],
                  unpPathStr := unpPathStr s @ [L (toFixed1 x) (toFixed1 y)] \<rparr>
      in if \<not> isStoppedOut_v s then
           (if y \<ge> STOP_LOSS_Y then
              s \<lparr> isStoppedOut_v := True,
                  stopOutX_v := x,
                  protPoints := protPoints s @ [(x, STOP_LOSS_Y)],
                  protPathStr := protPathStr s @ [L (toFixed1 x) (Plain STOP_LOSS_Y)] \<rparr>
            else
              s \<lparr> protPoints := protPoints s @ [(x, y)],
                  protPathStr := protPathStr s @ [L (toFixed1 x) (toFixed1 y)] \<rparr>)
         else
           s \<lparr> protPoints := protPoints s @ [(x, STOP_LOSS_Y)],
               protPathStr := protPathStr s @ [L (toFixed1 x) (Plain STOP_LOSS_Y)] \<rparr>)"

function loop :: "real \<Rightarrow> nat \<Rightarrow> locals \<Rightarrow> locals" where
  "loop factor i s = (if i \<le> steps then loop factor (Suc i) (body factor i s) else s)"
  by pat_completeness auto
termination
  by (relation "measure (\<lambda>(factor, i, s). Suc steps - i)") auto

definition initial :: locals where
  "initial =
     \<lparr> unpPathStr = [M (Plain 0) (Plain START_Y)],
       protPathStr = [M (Plain 0) (Plain START_Y)],
       unpPoints = [(0, START_Y)],
       protPoints = [(0, START_Y)],
       isStoppedOut_v = False,
       stopOutX_v = 0 \<rparr>"

definition finalLocals :: "real \<Rightarrow> locals" where
  \<comment> \<open>the local variables when the loop of \<open>generatePaths\<close> has ended\<close>
  "finalLocals volatility' = (let factor = volatility' / 100 in loop factor 1 initial)"

definition generatePaths :: "real \<Rightarrow> chartData" where
  "generatePaths volatility' =
     (let s = finalLocals volatility'
      in \<lparr> unpPath = unpPathStr s,
           protPath = protPathStr s,
           isStoppedOut = isStoppedOut_v s,
           stopOutX = stopOutX_v s,
           finalUnpY = snd (last (unpPoints s)) \<rparr>)"

text \<open>
  Used in the proofs: whether some step from \<open>i\<close> to \<open>j\<close> computes a \<open>y\<close> at or
  beyond the stop-loss line.
\<close>

definition reached :: "real \<Rightarrow> nat \<Rightarrow> nat \<Rightarrow> bool" where
  "reached f i j = (\<exists>k\<in>set [i..<Suc j]. sampleY f k \<ge> STOP_LOSS_Y)"

declare loop.simps [simp del]

section \<open>Properties of the ticker\<close>

text \<open>The equations that evaluate a rounding at a numeral.\<close>

lemmas b64 = fmul_def fadd_def fsub_def binary64_def expo_def rne_def pow2_def Let_def compute_bitlen

lemma lit_half: "binary64 0.5 = 1 / 2" by (simp add: b64)
lemma lit_005: "binary64 0.05 = 3602879701896397 / 2 ^ 56" by (simp add: b64)
lemma lit_01: "binary64 0.1 = 3602879701896397 / 2 ^ 55" by (simp add: b64)
lemma lit_09: "binary64 0.9 = 8106479329266893 / 2 ^ 53" by (simp add: b64)
lemma lit_009: "binary64 0.09 = 3242591731706757 / 2 ^ 55" by (simp add: b64)
lemma lit_5: "binary64 5.00 = 5" by (simp add: b64)
lemma lit_start: "binary64 388752.65 = 3339359835966669 / 2 ^ 33" by (simp add: b64)
lemma lit_far: "binary64 389352.65 = 3344513796721869 / 2 ^ 33" by (simp add: b64)

lemma dbl_quarter: "randomDraw (1 / 4)" by (simp add: randomDraw_def isDouble_def b64)
lemma dbl_half: "randomDraw (1 / 2)" by (simp add: randomDraw_def isDouble_def b64)
lemma dbl_3quarter: "randomDraw (3 / 4)" by (simp add: randomDraw_def isDouble_def b64)
lemma dbl_zero: "randomDraw 0" by (simp add: randomDraw_def isDouble_def b64)
lemma dbl_15_16: "randomDraw (15 / 16)" by (simp add: randomDraw_def isDouble_def b64)
lemma dbl_3_32: "randomDraw (3 / 32)" by (simp add: randomDraw_def isDouble_def b64)
lemma dbl_009: "randomDraw (3242591731706757 / 2 ^ 55)" by (simp add: randomDraw_def isDouble_def b64)
lemma dbl_top: "randomDraw (1 - 1 / 2 ^ 53)" by (simp add: randomDraw_def isDouble_def b64)

lemma pageTicker_eq:
  "pageTicker = \<lparr> startValue = 3339359835966669 / 2 ^ 33, currentValue = 3339359835966669 / 2 ^ 33,
                   volatility = 5, driftBias = 0 \<rparr>"
  unfolding pageTicker_def constructor_def or_default_def Let_def lit_start lit_5
  by simp

subsection \<open>getNextInterval\<close>

lemma span_1601: "fadd (fsub 2400 800) 1 = 1601" by (simp add: b64)
lemma top_product: "fmul (1 - 1 / 2 ^ 53) 1601 = 1601 - 1 / 2 ^ 42" by (simp add: b64)
lemma top_sum: "fadd (1601 - 1 / 2 ^ 42) 800 = 2401" by (simp add: b64)
lemma below_top_product: "fmul (1 - 1 / 2 ^ 52) 1601 = 1601 - 1 / 2 ^ 41" by (simp add: b64)
lemma below_top_sum: "fadd (1601 - 1 / 2 ^ 41) 800 = 2401 - 1 / 2 ^ 41" by (simp add: b64)
lemma zero_product: "fmul 0 1601 = 0" by (simp add: b64)
lemma zero_sum: "fadd 0 800 = 800" by (simp add: b64)

lemma getNextInterval_unfold:
  "getNextInterval r = \<lfloor>fadd (fmul r (fadd (fsub 2400 800) 1)) 800\<rfloor>"
  unfolding getNextInterval_def Let_def ..

text \<open>
  C8: the claim is that \<open>getNextInterval\<close> returns an integer from 800 to 2400 for
  every draw in [0,1). At the draw \<open>1 - 2^-53\<close>, the largest double below 1, the code
  returns 2401: the product rounds to \<open>1601 - 2^-42\<close>, and the sum \<open>2401 - 2^-42\<close>
  lies halfway between two doubles and rounds to the even one, 2401.
\<close>

theorem getNextInterval_exceeds_max:
  "randomDraw (1 - 1 / 2 ^ 53) \<and> getNextInterval (1 - 1 / 2 ^ 53) = 2401"
proof -
  have "getNextInterval (1 - 1 / 2 ^ 53) = \<lfloor>fadd (fmul (1 - 1 / 2 ^ 53) 1601) 800\<rfloor>"
    by (simp only: getNextInterval_unfold span_1601)
  also have "\<dots> = \<lfloor>2401 :: real\<rfloor>" by (simp only: top_product top_sum)
  also have "\<dots> = 2401" by simp
  finally show ?thesis using dbl_top by simp
qed

text \<open>
  The endpoints are reached: 800 at the draw 0, and 2400 at the draw \<open>1 - 2^-52\<close>.
\<close>

lemma getNextInterval_endpoints:
  "getNextInterval 0 = 800 \<and> getNextInterval (1 - 1 / 2 ^ 52) = 2400"
proof -
  have "getNextInterval 0 = \<lfloor>800 :: real\<rfloor>"
    by (simp only: getNextInterval_unfold span_1601 zero_product zero_sum)
  moreover have "getNextInterval (1 - 1 / 2 ^ 52) = \<lfloor>2401 - 1 / 2 ^ 41 :: real\<rfloor>"
    by (simp only: getNextInterval_unfold span_1601 below_top_product below_top_sum)
  moreover have "\<lfloor>2401 - 1 / 2 ^ 41 :: real\<rfloor> = 2400" by (simp add: floor_eq_iff)
  ultimately show ?thesis by simp
qed

text \<open>In exact arithmetic the formula stays within the two bounds.\<close>

lemma exact_interval_bounds:
  assumes "0 \<le> r" "r < 1"
  shows "800 \<le> \<lfloor>r * (2400 - 800 + 1) + 800\<rfloor> \<and> \<lfloor>r * (2400 - 800 + 1) + 800\<rfloor> \<le> 2400"
proof -
  have "800 \<le> r * (2400 - 800 + 1) + 800" using assms by simp
  moreover have "r * (2400 - 800 + 1) + 800 < 2401" using assms by simp
  ultimately show ?thesis by (simp add: le_floor_iff floor_le_iff)
qed

subsection \<open>The range of getNextInterval\<close>

text \<open>
  Rounding never crosses a point of its own grid: a value below (above) a multiple of the
  spacing of a binade at or above its own rounds to at most (at least) that multiple.
\<close>

lemma pow2_powi: "pow2 e = 2 powi e"
  by (simp add: pow2_def power_int_def power_one_over inverse_eq_divide)

lemma pow2_pos: "0 < pow2 e"
  by (simp add: pow2_powi)

lemma pow2_split: "e \<le> E \<Longrightarrow> pow2 (E - 52) = 2 ^ nat (E - e) * pow2 (e - 52)"
proof -
  assume "e \<le> E"
  then have "E - 52 = int (nat (E - e)) + (e - 52)" by simp
  then have "pow2 (E - 52) = 2 powi (int (nat (E - e)) + (e - 52))"
    by (simp only: pow2_powi)
  also have "\<dots> = 2 powi int (nat (E - e)) * 2 powi (e - 52)"
    by (rule power_int_add) simp
  also have "2 powi int (nat (E - e)) = (2::real) ^ nat (E - e)"
    by (rule power_int_of_nat)
  finally show ?thesis by (simp only: pow2_powi)
qed

lemma rne_cases: "rne z = \<lfloor>z\<rfloor> \<or> (rne z = \<lfloor>z\<rfloor> + 1 \<and> 1 / 2 \<le> z - of_int \<lfloor>z\<rfloor>)"
  by (auto simp: rne_def Let_def)

lemma rne_le: "z \<le> of_int k \<Longrightarrow> rne z \<le> k"
proof -
  assume zk: "z \<le> of_int k"
  then have f: "\<lfloor>z\<rfloor> \<le> k" by (simp add: floor_le_iff)
  from rne_cases[of z] show ?thesis
  proof
    assume "rne z = \<lfloor>z\<rfloor>"
    with f show ?thesis by simp
  next
    assume a: "rne z = \<lfloor>z\<rfloor> + 1 \<and> 1 / 2 \<le> z - of_int \<lfloor>z\<rfloor>"
    then have "of_int \<lfloor>z\<rfloor> < z" by linarith
    with zk have "(of_int \<lfloor>z\<rfloor> :: real) < of_int k" by linarith
    then have "\<lfloor>z\<rfloor> < k" by simp
    with a show ?thesis by simp
  qed
qed

lemma rne_ge: "of_int k \<le> z \<Longrightarrow> k \<le> rne z"
proof -
  assume "of_int k \<le> z"
  then have "k \<le> \<lfloor>z\<rfloor>" by (simp add: le_floor_iff)
  with rne_cases[of z] show ?thesis by auto
qed

text \<open>
  The rounding is to a nearest point of the grid: the error is at most half the spacing.
\<close>

lemma rne_nearest: "\<bar>of_int (rne z) - z\<bar> \<le> 1 / 2"
proof -
  have "of_int \<lfloor>z\<rfloor> \<le> z" "z < of_int \<lfloor>z\<rfloor> + 1" by linarith+
  then show ?thesis by (auto simp: rne_def Let_def)
qed

lemma binary64_nearest: "\<bar>binary64 x - x\<bar> \<le> pow2 (expo x - 52) / 2"
proof -
  define q where "q = pow2 (expo x - 52)"
  have q: "0 < q" unfolding q_def by (rule pow2_pos)
  have "binary64 x - x = (of_int (rne (x / q)) - x / q) * q"
    unfolding binary64_def Let_def q_def[symmetric] using q by (simp add: field_simps)
  then have "\<bar>binary64 x - x\<bar> = \<bar>of_int (rne (x / q)) - x / q\<bar> * q"
    using q by (simp add: abs_mult)
  also have "\<dots> \<le> 1 / 2 * q" using rne_nearest[of "x / q"] q by (intro mult_right_mono) simp_all
  finally show ?thesis unfolding q_def by simp
qed

lemma binary64_le_grid:
  assumes "expo x \<le> E" "x \<le> of_int k * pow2 (E - 52)"
  shows "binary64 x \<le> of_int k * pow2 (E - 52)"
proof -
  define q where "q = pow2 (expo x - 52)"
  define K where "K = k * 2 ^ nat (E - expo x)"
  have q: "0 < q" unfolding q_def by (rule pow2_pos)
  have c: "of_int k * pow2 (E - 52) = of_int K * q"
    unfolding K_def q_def pow2_split[OF assms(1)] by simp
  with assms(2) q have "x / q \<le> of_int K" by (simp add: divide_le_eq)
  then have "rne (x / q) \<le> K" by (rule rne_le)
  then have "of_int (rne (x / q)) * q \<le> of_int K * q" using q by simp
  then show ?thesis unfolding c binary64_def Let_def q_def .
qed

lemma binary64_ge_grid:
  assumes "expo x \<le> E" "of_int k * pow2 (E - 52) \<le> x"
  shows "of_int k * pow2 (E - 52) \<le> binary64 x"
proof -
  define q where "q = pow2 (expo x - 52)"
  define K where "K = k * 2 ^ nat (E - expo x)"
  have q: "0 < q" unfolding q_def by (rule pow2_pos)
  have c: "of_int k * pow2 (E - 52) = of_int K * q"
    unfolding K_def q_def pow2_split[OF assms(1)] by simp
  with assms(2) q have "of_int K \<le> x / q" by (simp add: le_divide_eq)
  then have "K \<le> rne (x / q)" by (rule rne_ge)
  then have "of_int K * q \<le> of_int (rne (x / q)) * q" using q by simp
  then show ?thesis unfolding c binary64_def Let_def q_def .
qed

lemma expo_le:
  assumes "\<bar>x\<bar> < 2 ^ Suc n"
  shows "expo x \<le> int n"
proof (cases "1 \<le> \<bar>x\<bar>")
  case True
  then have m: "0 < \<lfloor>\<bar>x\<bar>\<rfloor>" by simp
  have "\<lfloor>\<bar>x\<bar>\<rfloor> < 2 ^ Suc n" using assms by (simp add: floor_less_iff)
  moreover have "2 ^ nat (bitlen \<lfloor>\<bar>x\<bar>\<rfloor> - 1) \<le> \<lfloor>\<bar>x\<bar>\<rfloor>" using bitlen_bounds[OF m] ..
  ultimately have lt: "(2::int) ^ nat (bitlen \<lfloor>\<bar>x\<bar>\<rfloor> - 1) < 2 ^ Suc n" by linarith
  have "nat (bitlen \<lfloor>\<bar>x\<bar>\<rfloor> - 1) < Suc n"
    by (rule power_less_imp_less_exp[of 2]) (simp, rule lt)
  then have "bitlen \<lfloor>\<bar>x\<bar>\<rfloor> - 1 \<le> int n" by linarith
  with True show ?thesis by (simp add: expo_def)
next
  case False
  have "0 \<le> bitlen (\<lceil>1 / \<bar>x\<bar>\<rceil> - 1)" by (rule bitlen_nonneg)
  with False show ?thesis by (simp add: expo_def)
qed


lemma expo_eq:
  assumes "2 ^ n \<le> \<bar>x\<bar>" "\<bar>x\<bar> < 2 ^ Suc n"
  shows "expo x = int n"
proof -
  have "(1::real) \<le> 2 ^ n" by simp
  with assms(1) have one: "1 \<le> \<bar>x\<bar>" by linarith
  then have m: "0 < \<lfloor>\<bar>x\<bar>\<rfloor>" by simp
  have lo: "2 ^ n \<le> \<lfloor>\<bar>x\<bar>\<rfloor>" using assms(1) by (simp add: le_floor_iff)
  have hi: "\<lfloor>\<bar>x\<bar>\<rfloor> < 2 ^ Suc n" using assms(2) by (simp add: floor_less_iff)
  from bitlen_bounds[OF m] have b1: "2 ^ nat (bitlen \<lfloor>\<bar>x\<bar>\<rfloor> - 1) \<le> \<lfloor>\<bar>x\<bar>\<rfloor>"
    and b2: "\<lfloor>\<bar>x\<bar>\<rfloor> < 2 ^ nat (bitlen \<lfloor>\<bar>x\<bar>\<rfloor>)" by simp_all
  from b1 hi have lt1: "(2::int) ^ nat (bitlen \<lfloor>\<bar>x\<bar>\<rfloor> - 1) < 2 ^ Suc n" by linarith
  have u: "nat (bitlen \<lfloor>\<bar>x\<bar>\<rfloor> - 1) < Suc n"
    by (rule power_less_imp_less_exp[of 2]) (simp, rule lt1)
  from lo b2 have lt2: "(2::int) ^ n < 2 ^ nat (bitlen \<lfloor>\<bar>x\<bar>\<rfloor>)" by linarith
  have l: "n < nat (bitlen \<lfloor>\<bar>x\<bar>\<rfloor>)"
    by (rule power_less_imp_less_exp[of 2]) (simp, rule lt2)
  from u l have "bitlen \<lfloor>\<bar>x\<bar>\<rfloor> - 1 = int n" by linarith
  with one show ?thesis by (simp add: expo_def)
qed

lemma binary64_nonneg: "0 \<le> x \<Longrightarrow> 0 \<le> binary64 x"
proof -
  assume "0 \<le> x"
  then have "of_int 0 * pow2 (expo x - 52) \<le> x" by simp
  from binary64_ge_grid[OF order_refl this] show ?thesis by simp
qed

lemma binary64_le_int:
  assumes "\<bar>x\<bar> < 2 ^ 53" "x \<le> of_int n"
  shows "binary64 x \<le> of_int n"
proof -
  have e: "expo x \<le> 52" using expo_le[of x 52] assms(1) by simp
  have "pow2 (52 - 52) = 1" by (simp add: pow2_def)
  with binary64_le_grid[OF e, of n] assms(2) show ?thesis by simp
qed

lemma binary64_ge_int:
  assumes "\<bar>x\<bar> < 2 ^ 53" "of_int n \<le> x"
  shows "of_int n \<le> binary64 x"
proof -
  have e: "expo x \<le> 52" using expo_le[of x 52] assms(1) by simp
  have "pow2 (52 - 52) = 1" by (simp add: pow2_def)
  with binary64_ge_grid[OF e, of n] assms(2) show ?thesis by simp
qed

lemma getNextInterval_unfold':
  "getNextInterval r = \<lfloor>binary64 (binary64 (r * 1601) + 800)\<rfloor>"
  by (simp only: getNextInterval_unfold span_1601) (simp only: fadd_def fmul_def)

text \<open>
  For every draw in [0,1) the result lies between 800 and 2401.
\<close>

lemma getNextInterval_range:
  assumes "0 \<le> r" "r < 1"
  shows "800 \<le> getNextInterval r \<and> getNextInterval r \<le> 2401"
proof -
  define p where "p = binary64 (r * 1601)"
  have x: "0 \<le> r * 1601" "r * 1601 \<le> of_int 1601" "\<bar>r * 1601\<bar> < 2 ^ 53"
    using assms by simp_all
  have p0: "0 \<le> p" unfolding p_def using x(1) by (rule binary64_nonneg)
  have p1: "p \<le> 1601" unfolding p_def using binary64_le_int[OF x(3) x(2)] by simp
  from p0 p1 have s: "of_int 800 \<le> p + 800" "p + 800 \<le> of_int 2401" "\<bar>p + 800\<bar> < 2 ^ 53"
    by simp_all
  have "800 \<le> binary64 (p + 800)" using binary64_ge_int[OF s(3) s(1)] by simp
  moreover have "binary64 (p + 800) \<le> 2401" using binary64_le_int[OF s(3) s(2)] by simp
  ultimately show ?thesis
    unfolding getNextInterval_unfold' p_def[symmetric]
    by (simp add: le_floor_iff floor_le_iff)
qed


lemma pow2_neg42: "pow2 (10 - 52) = 1 / 2 ^ 42" by (simp add: pow2_def)
lemma pow2_neg41: "pow2 (11 - 52) = 1 / 2 ^ 41" by (simp add: pow2_def)
lemma pow2_neg53: "pow2 (- 1 - 52) = 1 / 2 ^ 53" by (simp add: pow2_def)

lemma rne_low: "of_int k \<le> z \<Longrightarrow> z < of_int k + 1 / 2 \<Longrightarrow> rne z = k"
proof -
  assume a: "of_int k \<le> z" "z < of_int k + 1 / 2"
  then have "\<lfloor>z\<rfloor> = k" by (intro floor_unique) simp_all
  with a show ?thesis by (simp add: rne_def Let_def)
qed

lemma top_binade:
  assumes "1601 - 1 / 2 ^ 41 \<le> x" "x \<le> 1601 - 1601 / 2 ^ 52"
  shows "binary64 x = 1601 - 1 / 2 ^ 41"
proof -
  have "2 ^ 10 \<le> \<bar>x\<bar>" "\<bar>x\<bar> < 2 ^ Suc 10" using assms by simp_all
  then have e: "expo x = 10" using expo_eq[of 10 x] by simp
  have lo: "of_int (1601 * 2 ^ 42 - 2) \<le> x / (1 / 2 ^ 42)" using assms(1) by simp
  have hi: "x / (1 / 2 ^ 42) < of_int (1601 * 2 ^ 42 - 2) + 1 / 2" using assms(2) by simp
  have "rne (x / (1 / 2 ^ 42)) = 1601 * 2 ^ 42 - 2" using lo hi by (rule rne_low)
  then show ?thesis unfolding binary64_def Let_def e pow2_neg42 by simp
qed

lemma product_below_top:
  assumes "0 \<le> r" "r \<le> 1 - 1 / 2 ^ 52"
  shows "binary64 (r * 1601) \<le> 1601 - 1 / 2 ^ 41"
proof (cases "r * 1601 \<le> 1601 - 1 / 2 ^ 41")
  case True
  have "\<bar>r * 1601\<bar> < 2 ^ Suc 10" using assms by simp
  then have e: "expo (r * 1601) \<le> 10" using expo_le[of "r * 1601" 10] by simp
  have g: "of_int (1601 * 2 ^ 42 - 2) * pow2 (10 - 52) = 1601 - 1 / 2 ^ 41"
    unfolding pow2_neg42 by simp
  from True have "r * 1601 \<le> of_int (1601 * 2 ^ 42 - 2) * pow2 (10 - 52)"
    unfolding g .
  from binary64_le_grid[OF e this] show ?thesis unfolding g .
next
  case False
  then have a: "1601 - 1 / 2 ^ 41 \<le> r * 1601" by simp
  have b: "r * 1601 \<le> 1601 - 1601 / 2 ^ 52" using assms(2) by simp
  from top_binade[OF a b] show ?thesis by simp
qed

text \<open>
  For every draw up to \<open>1 - 2^-52\<close> the result lies between 800 and 2400.
\<close>

lemma getNextInterval_below_top:
  assumes "0 \<le> r" "r \<le> 1 - 1 / 2 ^ 52"
  shows "800 \<le> getNextInterval r \<and> getNextInterval r \<le> 2400"
proof -
  have "r < 1" using assms(2) by simp
  with assms(1) have lower: "800 \<le> getNextInterval r" using getNextInterval_range by simp
  define p where "p = binary64 (r * 1601)"
  have p0: "0 \<le> p" unfolding p_def using assms(1) by (intro binary64_nonneg) simp
  have p1: "p \<le> 1601 - 1 / 2 ^ 41" unfolding p_def using assms by (rule product_below_top)
  have "\<bar>p + 800\<bar> < 2 ^ Suc 11" using p0 p1 by simp
  then have e: "expo (p + 800) \<le> 11" using expo_le[of "p + 800" 11] by simp
  have g: "of_int (2401 * 2 ^ 41 - 1) * pow2 (11 - 52) = 2401 - 1 / 2 ^ 41"
    unfolding pow2_neg41 by simp
  from p1 have "p + 800 \<le> of_int (2401 * 2 ^ 41 - 1) * pow2 (11 - 52)"
    unfolding g by simp
  from binary64_le_grid[OF e this] have "binary64 (p + 800) \<le> 2401 - 1 / 2 ^ 41"
    unfolding g .
  then have "binary64 (p + 800) < 2401" by simp
  then have "getNextInterval r \<le> 2400"
    unfolding getNextInterval_unfold' p_def[symmetric] by (simp add: floor_le_iff)
  with lower show ?thesis by simp
qed

text \<open>
  The only double between \<open>1 - 2^-52\<close> and 1 is \<open>1 - 2^-53\<close>, so the result leaves
  the interval from 800 to 2400 at that draw alone.
\<close>

lemma expo_upper_half:
  assumes "1 / 2 \<le> r" "r < 1"
  shows "expo r = - 1"
proof -
  have pos: "0 < r" using assms(1) by simp
  have "1 < 1 / r" using assms pos by (simp add: less_divide_eq)
  moreover have "1 / r \<le> 2" using assms pos by (simp add: divide_le_eq)
  ultimately have "\<lceil>1 / r\<rceil> = 2" by (intro ceiling_unique) simp_all
  moreover have "bitlen 1 = 1" by (simp add: compute_bitlen)
  ultimately show ?thesis using assms pos by (simp add: expo_def)
qed

lemma draws_below_one:
  assumes "randomDraw r"
  shows "r \<le> 1 - 1 / 2 ^ 52 \<or> r = 1 - 1 / 2 ^ 53"
proof (cases "r < 1 / 2")
  case True
  then show ?thesis by simp
next
  case False
  from assms have d: "binary64 r = r" and r1: "r < 1"
    by (simp_all add: randomDraw_def isDouble_def)
  from False have h: "1 / 2 \<le> r" by simp
  define m where "m = rne (r / (1 / 2 ^ 53))"
  have r: "r = of_int m / 2 ^ 53"
    using d unfolding binary64_def Let_def expo_upper_half[OF h r1] pow2_neg53 m_def by simp
  with r1 have "(of_int m :: real) < 2 ^ 53" by simp
  then have "m < 2 ^ 53" by (metis of_int_less_iff of_int_numeral of_int_power)
  then consider "m = 2 ^ 53 - 1" | "m \<le> 2 ^ 53 - 2" by linarith
  then show ?thesis
  proof cases
    case 1
    then show ?thesis unfolding r by simp
  next
    case 2
    then have "(of_int m :: real) \<le> of_int (2 ^ 53 - 2)" by (simp only: of_int_le_iff)
    then have "r \<le> 1 - 1 / 2 ^ 52" unfolding r by simp
    then show ?thesis ..
  qed
qed

lemma getNextInterval_in_range_below_top_draw:
  assumes "randomDraw r" "r \<noteq> 1 - 1 / 2 ^ 53"
  shows "800 \<le> getNextInterval r \<and> getNextInterval r \<le> 2400"
proof -
  from draws_below_one[OF assms(1)] assms(2) have "r \<le> 1 - 1 / 2 ^ 52" by simp
  moreover from assms(1) have "0 \<le> r" by (simp add: randomDraw_def)
  ultimately show ?thesis by (intro getNextInterval_below_top)
qed

subsection \<open>calculateNextValue\<close>

lemma farTicker_eq:
  "farTicker = \<lparr> startValue = 3339359835966669 / 2 ^ 33, currentValue = 3344513796721869 / 2 ^ 33,
                   volatility = 5, driftBias = 0 \<rparr>"
  unfolding farTicker_def pageTicker_eq lit_far by simp

lemma away_direction: "direction awayDraws = - 1"
  unfolding direction_def lit_half by (simp add: awayDraws_def)

lemma far_diff: "fsub (3344513796721869 / 2 ^ 33) (3339359835966669 / 2 ^ 33) = 600"
  by (simp add: b64)

lemma far_tenth: "fmul 600 (3602879701896397 / 2 ^ 55) = 60"
  by (simp add: b64)

lemma far_negate: "fmul (- 1) 60 = - 60"
  by (simp add: b64)

lemma far_change: "change awayDraws farTicker = - 60"
proof -
  have "change awayDraws farTicker =
      (if \<bar>fsub (3344513796721869 / 2 ^ 33) (3339359835966669 / 2 ^ 33)\<bar> > 500
       then fmul (- 1) (fmul (fsub (3344513796721869 / 2 ^ 33) (3339359835966669 / 2 ^ 33))
                          (3602879701896397 / 2 ^ 55))
       else fadd (fadd (fmul (r_change awayDraws) (volatility farTicker)) (binary64 0.05))
              (nextDriftBias awayDraws farTicker))"
    unfolding change_def Let_def lit_01 by (simp add: farTicker_eq)
  also have "\<dots> = - 60"
    unfolding far_diff far_tenth far_negate by simp
  finally show ?thesis .
qed

lemma far_step: "fmul (- 60) (- 1) = 60"
  by (simp add: b64)

lemma far_sum: "fadd (3344513796721869 / 2 ^ 33) 60 = 3345029192797389 / 2 ^ 33"
  by (simp add: b64)

lemma far_next:
  "currentValue (calculateNextValue awayDraws farTicker) = 3345029192797389 / 2 ^ 33"
proof -
  have "currentValue (calculateNextValue awayDraws farTicker) =
      fadd (currentValue farTicker) (fmul (change awayDraws farTicker) (direction awayDraws))"
    by (simp add: calculateNextValue_def)
  also have "\<dots> = fadd (3344513796721869 / 2 ^ 33) (fmul (- 60) (- 1))"
    unfolding far_change away_direction by (simp add: farTicker_eq)
  also have "\<dots> = 3345029192797389 / 2 ^ 33"
    unfolding far_step far_sum ..
  finally show ?thesis .
qed

lemma away_valid: "validDraws awayDraws"
  by (simp add: validDraws_def awayDraws_def dbl_quarter dbl_half)

text \<open>
  C1: the claim is that a tick starting more than 500 away from the start value moves
  the value towards the start value, whatever the draws are. With the value 600 above the
  start value and a direction draw of 1/4, \<open>change\<close> is -60, opposite to the difference,
  but it is multiplied by the direction -1: the value rises by 60, away from the start.
\<close>

theorem reversion_step_moves_away:
  "validDraws awayDraws \<and>
   currentValue farTicker - startValue farTicker = 600 \<and>
   change awayDraws farTicker = - 60 \<and>
   direction awayDraws = - 1 \<and>
   currentValue (calculateNextValue awayDraws farTicker) - currentValue farTicker = 60"
proof -
  have "currentValue farTicker - startValue farTicker = 600"
    by (simp add: farTicker_eq)
  moreover have "currentValue (calculateNextValue awayDraws farTicker) - currentValue farTicker = 60"
    unfolding far_next by (simp add: farTicker_eq)
  ultimately show ?thesis
    using away_valid far_change away_direction by simp
qed


text \<open>
  What the code does in general when the value is more than 500 from the start value (and
  the magnitudes are those of prices, below \<open>2^50\<close>): \<open>change\<close> is opposite to the
  difference and at least 50 in magnitude, and the value moves towards the start value
  when the direction is +1 and away from it when the direction is -1.
\<close>

lemma reversion_change_down:
  assumes "500 < diff" "diff < 2 ^ 50"
  shows "fmul (- 1) (fmul diff (binary64 0.1)) \<le> - 50 \<and>
         - (2 ^ 50) \<le> fmul (- 1) (fmul diff (binary64 0.1))"
  unfolding lit_01
proof -
  define y where "y = fmul diff (3602879701896397 / 2 ^ 55)"
  have a: "of_int 50 \<le> diff * (3602879701896397 / 2 ^ 55)" using assms(1) by simp
  have u: "diff * (3602879701896397 / 2 ^ 55) \<le> of_int (2 ^ 50)" using assms by simp
  from a u have b: "\<bar>diff * (3602879701896397 / 2 ^ 55)\<bar> < 2 ^ 53" by simp
  have y50: "50 \<le> y" unfolding y_def fmul_def using binary64_ge_int[OF b a] by simp
  have "y \<le> of_int (2 ^ 50)" unfolding y_def fmul_def using b u by (rule binary64_le_int)
  with y50 have c: "\<bar>- 1 * y\<bar> < 2 ^ 53" by simp
  from y50 have "- 1 * y \<le> of_int (- 50)" by simp
  from binary64_le_int[OF c this] have 1: "fmul (- 1) y \<le> - 50"
    unfolding fmul_def[of "- 1" y] by simp
  from \<open>y \<le> of_int (2 ^ 50)\<close> have "of_int (- (2 ^ 50)) \<le> - 1 * y" by simp
  from binary64_ge_int[OF c this] have 2: "- (2 ^ 50) \<le> fmul (- 1) y"
    unfolding fmul_def[of "- 1" y] by simp
  from 1 2 show "fmul (- 1) (fmul diff (3602879701896397 / 2 ^ 55)) \<le> - 50 \<and>
         - (2 ^ 50) \<le> fmul (- 1) (fmul diff (3602879701896397 / 2 ^ 55))"
    unfolding y_def[symmetric] by simp
qed

lemma reversion_change_up:
  assumes "diff < - 500" "- (2 ^ 50) < diff"
  shows "50 \<le> fmul (- 1) (fmul diff (binary64 0.1)) \<and>
         fmul (- 1) (fmul diff (binary64 0.1)) \<le> 2 ^ 50"
  unfolding lit_01
proof -
  define y where "y = fmul diff (3602879701896397 / 2 ^ 55)"
  have a: "diff * (3602879701896397 / 2 ^ 55) \<le> of_int (- 50)" using assms(1) by simp
  have u: "of_int (- (2 ^ 50)) \<le> diff * (3602879701896397 / 2 ^ 55)" using assms by simp
  from a u have b: "\<bar>diff * (3602879701896397 / 2 ^ 55)\<bar> < 2 ^ 53" by simp
  have y50: "y \<le> - 50" unfolding y_def fmul_def using binary64_le_int[OF b a] by simp
  have "of_int (- (2 ^ 50)) \<le> y" unfolding y_def fmul_def using b u by (rule binary64_ge_int)
  with y50 have c: "\<bar>- 1 * y\<bar> < 2 ^ 53" by simp
  from y50 have "of_int 50 \<le> - 1 * y" by simp
  from binary64_ge_int[OF c this] have 1: "50 \<le> fmul (- 1) y"
    unfolding fmul_def[of "- 1" y] by simp
  from \<open>of_int (- (2 ^ 50)) \<le> y\<close> have "- 1 * y \<le> of_int (2 ^ 50)" by simp
  from binary64_le_int[OF c this] have 2: "fmul (- 1) y \<le> 2 ^ 50"
    unfolding fmul_def[of "- 1" y] by simp
  from 1 2 show "50 \<le> fmul (- 1) (fmul diff (3602879701896397 / 2 ^ 55)) \<and>
         fmul (- 1) (fmul diff (3602879701896397 / 2 ^ 55)) \<le> 2 ^ 50"
    unfolding y_def[symmetric] by simp
qed

lemma reversion_change_opposes:
  assumes "\<bar>fsub (currentValue t) (startValue t)\<bar> > 500"
    and "\<bar>fsub (currentValue t) (startValue t)\<bar> < 2 ^ 50"
  shows "(0 < fsub (currentValue t) (startValue t) \<longrightarrow>
            - (2 ^ 50) \<le> change d t \<and> change d t \<le> - 50) \<and>
         (fsub (currentValue t) (startValue t) < 0 \<longrightarrow>
            50 \<le> change d t \<and> change d t \<le> 2 ^ 50)"
proof -
  have c: "change d t = fmul (- 1) (fmul (fsub (currentValue t) (startValue t)) (binary64 0.1))"
    using assms(1) by (simp add: change_def Let_def)
  show ?thesis
    unfolding c using assms reversion_change_down reversion_change_up
    by (auto simp: abs_if split: if_splits)
qed


lemma step_up:
  assumes "50 \<le> c" "c \<le> 2 ^ 50" "\<bar>v\<bar> < 2 ^ 51"
  shows "v < fadd v (fmul c 1)" "fadd v (fmul (- c) (- 1)) = fadd v (fmul c 1)"
proof -
  have m: "\<bar>c * 1\<bar> < 2 ^ 53" using assms by simp
  have lo: "of_int 50 \<le> c * 1" and hi: "c * 1 \<le> of_int (2 ^ 50)" using assms by simp_all
  have s: "50 \<le> fmul c 1" "fmul c 1 \<le> 2 ^ 50"
    unfolding fmul_def using binary64_ge_int[OF m lo] binary64_le_int[OF m hi] by simp_all
  have b: "\<bar>v + fmul c 1\<bar> < 2 ^ 53" using s assms(3) by simp
  have "of_int (\<lfloor>v\<rfloor> + 50) \<le> v + fmul c 1" using s(1) by simp linarith
  from binary64_ge_int[OF b this] have "of_int (\<lfloor>v\<rfloor> + 50) \<le> fadd v (fmul c 1)"
    unfolding fadd_def .
  then show "v < fadd v (fmul c 1)" by simp linarith
  show "fadd v (fmul (- c) (- 1)) = fadd v (fmul c 1)" by (simp add: fmul_def)
qed

lemma step_down:
  assumes "50 \<le> c" "c \<le> 2 ^ 50" "\<bar>v\<bar> < 2 ^ 51"
  shows "fadd v (fmul (- c) 1) < v" "fadd v (fmul c (- 1)) = fadd v (fmul (- c) 1)"
proof -
  have m: "\<bar>- c * 1\<bar> < 2 ^ 53" using assms by simp
  have hi: "- c * 1 \<le> of_int (- 50)" and lo: "of_int (- (2 ^ 50)) \<le> - c * 1"
    using assms by simp_all
  have s: "fmul (- c) 1 \<le> - 50" "- (2 ^ 50) \<le> fmul (- c) 1"
    unfolding fmul_def using binary64_le_int[OF m hi] binary64_ge_int[OF m lo] by simp_all
  have b: "\<bar>v + fmul (- c) 1\<bar> < 2 ^ 53" using s assms(3) by simp
  have "v + fmul (- c) 1 \<le> of_int (\<lceil>v\<rceil> - 50)" using s(1) by simp linarith
  from binary64_le_int[OF b this] have "fadd v (fmul (- c) 1) \<le> of_int (\<lceil>v\<rceil> - 50)"
    unfolding fadd_def .
  then show "fadd v (fmul (- c) 1) < v" by simp linarith
  show "fadd v (fmul c (- 1)) = fadd v (fmul (- c) 1)" by (simp add: fmul_def)
qed

lemma far_tick_follows_direction:
  assumes "\<bar>fsub (currentValue t) (startValue t)\<bar> > 500"
    and "\<bar>fsub (currentValue t) (startValue t)\<bar> < 2 ^ 50"
    and "\<bar>currentValue t\<bar> < 2 ^ 51"
  shows "(0 < fsub (currentValue t) (startValue t) \<longrightarrow>
           (if direction d = 1
            then currentValue (calculateNextValue d t) < currentValue t
            else currentValue t < currentValue (calculateNextValue d t))) \<and>
         (fsub (currentValue t) (startValue t) < 0 \<longrightarrow>
           (if direction d = 1
            then currentValue t < currentValue (calculateNextValue d t)
            else currentValue (calculateNextValue d t) < currentValue t))"
proof -
  note c = reversion_change_opposes[OF assms(1,2), of d]
  have dir: "direction d = 1 \<or> direction d = - 1" by (simp add: direction_def)
  have n: "currentValue (calculateNextValue d t) =
      fadd (currentValue t) (fmul (change d t) (direction d))"
    by (simp add: calculateNextValue_def)
  show ?thesis
  proof (intro conjI impI)
    assume "0 < fsub (currentValue t) (startValue t)"
    with c have b: "50 \<le> - change d t" "- change d t \<le> 2 ^ 50" by simp_all
    from step_down[OF b assms(3)] step_up[OF b assms(3)] dir
    show "if direction d = 1
          then currentValue (calculateNextValue d t) < currentValue t
          else currentValue t < currentValue (calculateNextValue d t)"
      unfolding n by auto
  next
    assume "fsub (currentValue t) (startValue t) < 0"
    with c have b: "50 \<le> change d t" "change d t \<le> 2 ^ 50" by simp_all
    from step_down[OF b assms(3)] step_up[OF b assms(3)] dir
    show "if direction d = 1
          then currentValue t < currentValue (calculateNextValue d t)
          else currentValue (calculateNextValue d t) < currentValue t"
      unfolding n by auto
  qed
qed

lemma slowTicker_eq:
  "slowTicker = \<lparr> startValue = 3339359835966669 / 2 ^ 33, currentValue = 3339359835966669 / 2 ^ 33,
                   volatility = 8106479329266893 / 2 ^ 53, driftBias = 0 \<rparr>"
  unfolding slowTicker_def constructor_def or_default_def Let_def lit_start lit_09
  by simp

lemma resample_down:
  assumes "r_trend d = 15 / 16" "r_bias d = 1 / 4"
  shows "nextDriftBias d t = - (1 / 2)"
  unfolding nextDriftBias_def lit_09 lit_half using assms by simp

lemma up_direction:
  assumes "r_direction d = 3 / 4"
  shows "direction d = 1"
  unfolding direction_def lit_half using assms by simp

lemma near_diff: "fsub (3339359835966669 / 2 ^ 33) (3339359835966669 / 2 ^ 33) = 0"
  by (simp add: b64)

text \<open>The value of \<open>change\<close> when the ticker stands at its start value.\<close>

lemma change_at_start:
  assumes "currentValue t = 3339359835966669 / 2 ^ 33" "startValue t = 3339359835966669 / 2 ^ 33"
    and "r_trend d = 15 / 16" "r_bias d = 1 / 4"
  shows "change d t =
      fadd (fadd (fmul (r_change d) (volatility t)) (3602879701896397 / 2 ^ 56)) (- (1 / 2))"
proof -
  have "change d t =
      (if \<bar>fsub (3339359835966669 / 2 ^ 33) (3339359835966669 / 2 ^ 33)\<bar> > 500
       then fmul (- 1) (fmul (fsub (3339359835966669 / 2 ^ 33) (3339359835966669 / 2 ^ 33))
                          (binary64 0.1))
       else fadd (fadd (fmul (r_change d) (volatility t)) (3602879701896397 / 2 ^ 56))
              (- (1 / 2)))"
    unfolding change_def Let_def lit_005 resample_down[OF assms(3,4)] assms(1,2) ..
  then show ?thesis unfolding near_diff by simp
qed

lemma bias_product: "fmul 0 5 = 0" by (simp add: b64)
lemma bias_base: "fadd 0 (3602879701896397 / 2 ^ 56) = 3602879701896397 / 2 ^ 56" by (simp add: b64)
lemma bias_sum: "fadd (3602879701896397 / 2 ^ 56) (- (1 / 2)) = - (8106479329266893 / 2 ^ 54)"
  by (simp add: b64)

lemma bias_change: "change biasDraws pageTicker = - (8106479329266893 / 2 ^ 54)"
proof -
  have "change biasDraws pageTicker = fadd (fadd (fmul 0 5) (3602879701896397 / 2 ^ 56)) (- (1 / 2))"
    by (subst change_at_start) (simp_all add: pageTicker_eq biasDraws_def)
  then show ?thesis unfolding bias_product bias_base bias_sum .
qed

lemma bias_step: "fmul (- (8106479329266893 / 2 ^ 54)) 1 = - (8106479329266893 / 2 ^ 54)"
  by (simp add: b64)

lemma bias_move:
  "fadd (3339359835966669 / 2 ^ 33) (- (8106479329266893 / 2 ^ 54)) = 6678711940992205 / 2 ^ 34"
  by (simp add: b64)

lemma bias_next:
  "currentValue (calculateNextValue biasDraws pageTicker) = 6678711940992205 / 2 ^ 34"
proof -
  have d: "direction biasDraws = 1" by (rule up_direction) (simp add: biasDraws_def)
  have "currentValue (calculateNextValue biasDraws pageTicker) =
      fadd (currentValue pageTicker) (fmul (change biasDraws pageTicker) (direction biasDraws))"
    by (simp add: calculateNextValue_def)
  also have "\<dots> = fadd (3339359835966669 / 2 ^ 33) (fmul (- (8106479329266893 / 2 ^ 54)) 1)"
    unfolding bias_change d by (simp add: pageTicker_eq)
  also have "\<dots> = 6678711940992205 / 2 ^ 34"
    unfolding bias_step bias_move ..
  finally show ?thesis .
qed

lemma small_product: "fmul (3 / 32) 5 = 15 / 32" by (simp add: b64)
lemma small_base: "fadd (15 / 32) (3602879701896397 / 2 ^ 56) = 2336242306698445 / 2 ^ 52"
  by (simp add: b64)
lemma small_sum: "fadd (2336242306698445 / 2 ^ 52) (- (1 / 2)) = 84442493013197 / 2 ^ 52"
  by (simp add: b64)

lemma small_change: "change smallDraws pageTicker = 84442493013197 / 2 ^ 52"
proof -
  have "change smallDraws pageTicker =
      fadd (fadd (fmul (3 / 32) 5) (3602879701896397 / 2 ^ 56)) (- (1 / 2))"
    by (subst change_at_start) (simp_all add: pageTicker_eq smallDraws_def)
  then show ?thesis unfolding small_product small_base small_sum .
qed

lemma zero_half: "fmul (1 / 2) (8106479329266893 / 2 ^ 53) = 8106479329266893 / 2 ^ 54"
  by (simp add: b64)
lemma zero_base: "fadd (8106479329266893 / 2 ^ 54) (3602879701896397 / 2 ^ 56) = 1 / 2"
  by (simp add: b64)
lemma zero_cancel: "fadd (1 / 2) (- (1 / 2)) = 0"
  by (simp add: b64)

lemma zero_change: "change zeroDraws slowTicker = 0"
proof -
  have "change zeroDraws slowTicker =
      fadd (fadd (fmul (1 / 2) (8106479329266893 / 2 ^ 53)) (3602879701896397 / 2 ^ 56)) (- (1 / 2))"
    by (subst change_at_start) (simp_all add: slowTicker_eq zeroDraws_def)
  then show ?thesis unfolding zero_half zero_base zero_cancel .
qed

lemma zero_step: "fmul 0 1 = 0" by (simp add: b64)
lemma zero_move: "fadd (3339359835966669 / 2 ^ 33) 0 = 3339359835966669 / 2 ^ 33" by (simp add: b64)

lemma zero_next: "currentValue (calculateNextValue zeroDraws slowTicker) = currentValue slowTicker"
proof -
  have d: "direction zeroDraws = 1" by (rule up_direction) (simp add: zeroDraws_def)
  have "currentValue (calculateNextValue zeroDraws slowTicker) =
      fadd (currentValue slowTicker) (fmul (change zeroDraws slowTicker) (direction zeroDraws))"
    by (simp add: calculateNextValue_def)
  also have "\<dots> = fadd (3339359835966669 / 2 ^ 33) (fmul 0 1)"
    unfolding zero_change d by (simp add: slowTicker_eq)
  also have "\<dots> = 3339359835966669 / 2 ^ 33"
    unfolding zero_step zero_move ..
  finally show ?thesis by (simp add: slowTicker_eq)
qed

lemma valid_draws:
  "validDraws biasDraws" "validDraws smallDraws" "validDraws zeroDraws"
  by (simp_all add: validDraws_def biasDraws_def smallDraws_def zeroDraws_def
      dbl_3quarter dbl_zero dbl_15_16 dbl_quarter dbl_3_32 dbl_half)

text \<open>
  C10: within 500 of the start value the computed \<open>change\<close> can be negative. On the
  page's ticker, draws that resample the drift bias to -0.5 with a uniform draw of 0 give a
  negative \<open>change\<close>, and the value falls although the direction is +1. With the uniform
  draw 3/32 the \<open>change\<close> lies strictly between 0 and 0.05. On a ticker with the
  volatility 0.9 and the uniform draw 1/2 the \<open>change\<close> is exactly 0 and the value stays.
\<close>

theorem change_negative_small_or_zero:
  "validDraws biasDraws \<and>
   \<bar>currentValue pageTicker - startValue pageTicker\<bar> \<le> 500 \<and>
   nextDriftBias biasDraws pageTicker = - 0.5 \<and>
   change biasDraws pageTicker < 0 \<and>
   direction biasDraws = 1 \<and>
   currentValue (calculateNextValue biasDraws pageTicker) < currentValue pageTicker \<and>
   validDraws smallDraws \<and>
   0 < change smallDraws pageTicker \<and> change smallDraws pageTicker < 0.05 \<and>
   validDraws zeroDraws \<and>
   \<bar>currentValue slowTicker - startValue slowTicker\<bar> \<le> 500 \<and>
   change zeroDraws slowTicker = 0 \<and>
   currentValue (calculateNextValue zeroDraws slowTicker) = currentValue slowTicker"
proof -
  have a: "\<bar>currentValue pageTicker - startValue pageTicker\<bar> \<le> 500"
    by (simp add: pageTicker_eq)
  have b: "nextDriftBias biasDraws pageTicker = - 0.5"
    by (subst resample_down) (simp_all add: biasDraws_def)
  have c: "change biasDraws pageTicker < 0" unfolding bias_change by simp
  have d: "direction biasDraws = 1" by (rule up_direction) (simp add: biasDraws_def)
  have e: "currentValue (calculateNextValue biasDraws pageTicker) < currentValue pageTicker"
    unfolding bias_next by (simp add: pageTicker_eq)
  have f: "0 < change smallDraws pageTicker \<and> change smallDraws pageTicker < 0.05"
    unfolding small_change by simp
  have g: "\<bar>currentValue slowTicker - startValue slowTicker\<bar> \<le> 500"
    by (simp add: slowTicker_eq)
  from a b c d e f g valid_draws zero_change zero_next show ?thesis by blast
qed


text \<open>
  On the page's ticker, whose volatility is 5, the uniform draw 0.09 gives a \<open>change\<close>
  of \<open>- 2^-54\<close>, which the addition to the value rounds away.
\<close>

lemma still_product: "fmul (3242591731706757 / 2 ^ 55) 5 = 2026619832316723 / 2 ^ 52"
  by (simp add: b64)
lemma still_base: "fadd (2026619832316723 / 2 ^ 52) (3602879701896397 / 2 ^ 56) = 9007199254740991 / 2 ^ 54"
  by (simp add: b64)
lemma still_sum: "fadd (9007199254740991 / 2 ^ 54) (- (1 / 2)) = - (1 / 2 ^ 54)"
  by (simp add: b64)
lemma still_step: "fmul (- (1 / 2 ^ 54)) 1 = - (1 / 2 ^ 54)"
  by (simp add: b64)
lemma still_move: "fadd (3339359835966669 / 2 ^ 33) (- (1 / 2 ^ 54)) = 3339359835966669 / 2 ^ 33"
  by (simp add: b64)

lemma stillDraws_eq:
  "stillDraws = \<lparr> r_direction = 3 / 4, r_change = 3242591731706757 / 2 ^ 55,
                   r_trend = 15 / 16, r_bias = 1 / 4 \<rparr>"
  unfolding stillDraws_def lit_009 ..

lemma still_change: "change stillDraws pageTicker = - (1 / 2 ^ 54)"
proof -
  have "change stillDraws pageTicker =
      fadd (fadd (fmul (3242591731706757 / 2 ^ 55) 5) (3602879701896397 / 2 ^ 56)) (- (1 / 2))"
    by (subst change_at_start) (simp_all add: pageTicker_eq stillDraws_eq)
  then show ?thesis unfolding still_product still_base still_sum .
qed

lemma page_tick_without_movement:
  "validDraws stillDraws \<and> change stillDraws pageTicker \<noteq> 0 \<and>
   currentValue (calculateNextValue stillDraws pageTicker) = currentValue pageTicker"
proof -
  have d: "direction stillDraws = 1" by (rule up_direction) (simp add: stillDraws_eq)
  have "currentValue (calculateNextValue stillDraws pageTicker) =
      fadd (currentValue pageTicker) (fmul (change stillDraws pageTicker) (direction stillDraws))"
    by (simp add: calculateNextValue_def)
  also have "\<dots> = fadd (3339359835966669 / 2 ^ 33) (fmul (- (1 / 2 ^ 54)) 1)"
    unfolding still_change d by (simp add: pageTicker_eq)
  also have "\<dots> = 3339359835966669 / 2 ^ 33"
    unfolding still_step still_move ..
  finally have "currentValue (calculateNextValue stillDraws pageTicker) = currentValue pageTicker"
    by (simp add: pageTicker_eq)
  moreover have "validDraws stillDraws"
    using dbl_3quarter dbl_009 dbl_15_16 dbl_quarter
    by (simp add: validDraws_def stillDraws_eq)
  moreover have "change stillDraws pageTicker \<noteq> 0" unfolding still_change by simp
  ultimately show ?thesis by simp
qed

section \<open>The loop of generatePaths\<close>


lemma loop_step: "i \<le> steps \<Longrightarrow> loop f i s = loop f (Suc i) (body f i s)"
  by (subst loop.simps) simp

lemma loop_exit: "\<not> i \<le> steps \<Longrightarrow> loop f i s = s"
  by (subst loop.simps) simp

lemma steps_upt: "i \<le> steps \<Longrightarrow> [i..<Suc steps] = i # [Suc i..<Suc steps]"
  by (rule upt_conv_Cons) simp

lemma steps_upt_empty: "\<not> i \<le> steps \<Longrightarrow> [i..<Suc steps] = []"
  by simp

lemma unpPoints_body: "unpPoints (body f i s) = unpPoints s @ [(sampleX i, sampleY f i)]"
  by (simp add: body_def Let_def)

lemma protPoints_body:
  "protPoints (body f i s) =
     protPoints s @ [(sampleX i,
        if isStoppedOut_v s \<or> sampleY f i \<ge> STOP_LOSS_Y then STOP_LOSS_Y else sampleY f i)]"
  by (simp add: body_def Let_def)

lemma isStoppedOut_body:
  "isStoppedOut_v (body f i s) = (isStoppedOut_v s \<or> sampleY f i \<ge> STOP_LOSS_Y)"
  by (simp add: body_def Let_def)

lemma stopOutX_body:
  "stopOutX_v (body f i s) =
     (if \<not> isStoppedOut_v s \<and> sampleY f i \<ge> STOP_LOSS_Y then sampleX i else stopOutX_v s)"
  by (simp add: body_def Let_def)

lemma unpPoints_loop:
  "unpPoints (loop f i s) = unpPoints s @ map (\<lambda>j. (sampleX j, sampleY f j)) [i..<Suc steps]"
proof (induction f i s rule: loop.induct)
  case (1 f i s)
  show ?case
  proof (cases "i \<le> steps")
    case True
    show ?thesis
      unfolding loop_step[OF True] "1.IH"[OF True] unpPoints_body steps_upt[OF True] by simp
  next
    case False
    show ?thesis
      unfolding loop_exit[OF False] steps_upt_empty[OF False] by simp
  qed
qed

lemma reached_first: "i \<le> j \<Longrightarrow> reached f i j = (sampleY f i \<ge> STOP_LOSS_Y \<or> reached f (Suc i) j)"
proof -
  assume "i \<le> j"
  then have "[i..<Suc j] = i # [Suc i..<Suc j]" by (intro upt_conv_Cons) simp
  then show ?thesis unfolding reached_def by simp
qed

lemma reached_none: "j < i \<Longrightarrow> \<not> reached f i j"
  unfolding reached_def by simp

lemma isStoppedOut_loop:
  "isStoppedOut_v (loop f i s) = (isStoppedOut_v s \<or> reached f i steps)"
proof (induction f i s rule: loop.induct)
  case (1 f i s)
  show ?case
  proof (cases "i \<le> steps")
    case True
    show ?thesis
      unfolding loop_step[OF True] "1.IH"[OF True] isStoppedOut_body reached_first[OF True]
      by blast
  next
    case False
    then have "\<not> reached f i steps" by (intro reached_none) simp
    then show ?thesis
      unfolding loop_exit[OF False] by simp
  qed
qed

lemma protPoints_loop:
  "protPoints (loop f i s) =
     protPoints s @
     map (\<lambda>j. (sampleX j, if isStoppedOut_v s \<or> reached f i j then STOP_LOSS_Y else sampleY f j))
       [i..<Suc steps]"
proof (induction f i s rule: loop.induct)
  case (1 f i s)
  show ?case
  proof (cases "i \<le> steps")
    case True
    have here: "reached f i i = (sampleY f i \<ge> STOP_LOSS_Y)"
      unfolding reached_def by simp
    have later: "(isStoppedOut_v (body f i s) \<or> reached f (Suc i) j) = (isStoppedOut_v s \<or> reached f i j)"
      if "j \<in> set [Suc i..<Suc steps]" for j
    proof -
      from that have "i \<le> j" by auto
      then show ?thesis
        unfolding isStoppedOut_body reached_first[OF \<open>i \<le> j\<close>] by blast
    qed
    have "map (\<lambda>j. (sampleX j, if isStoppedOut_v (body f i s) \<or> reached f (Suc i) j
                                then STOP_LOSS_Y else sampleY f j)) [Suc i..<Suc steps]
        = map (\<lambda>j. (sampleX j, if isStoppedOut_v s \<or> reached f i j
                                then STOP_LOSS_Y else sampleY f j)) [Suc i..<Suc steps]"
      by (rule map_cong[OF refl]) (simp only: later)
    then show ?thesis
      unfolding loop_step[OF True] "1.IH"[OF True] protPoints_body steps_upt[OF True]
      by (simp add: here)
  next
    case False
    show ?thesis
      unfolding loop_exit[OF False] steps_upt_empty[OF False] by simp
  qed
qed

lemma stopOutX_loop:
  "stopOutX_v (loop f i s) =
     (if isStoppedOut_v s then stopOutX_v s
      else case find (\<lambda>j. sampleY f j \<ge> STOP_LOSS_Y) [i..<Suc steps] of
             None \<Rightarrow> stopOutX_v s
           | Some j \<Rightarrow> sampleX j)"
proof (induction f i s rule: loop.induct)
  case (1 f i s)
  show ?case
  proof (cases "i \<le> steps")
    case True
    show ?thesis
      unfolding loop_step[OF True] "1.IH"[OF True] steps_upt[OF True]
      by (simp add: isStoppedOut_body stopOutX_body del: upt_Suc split: option.split)
  next
    case False
    show ?thesis
      unfolding loop_exit[OF False] steps_upt_empty[OF False] by simp
  qed
qed

section \<open>The trajectories at the end of the loop\<close>

lemma sampleX_0: "sampleX 0 = 0"
  by (simp add: sampleX_def)

lemma sampleY_0: "sampleY f 0 = START_Y"
  by (simp add: sampleY_def sampleX_def noise_def crashDrop_def START_Y_def Let_def)


lemma unprotected_eq:
  "unpPoints (finalLocals v) =
     (0, START_Y) # map (\<lambda>j. (sampleX j, sampleY (v / 100) j)) [1..<Suc steps]"
  by (simp add: finalLocals_def Let_def unpPoints_loop initial_def del: upt_Suc)

lemma reached_initial: "isStoppedOut_v initial = False"
  by (simp add: initial_def)

lemma protected_eq:
  "protPoints (finalLocals v) =
     (0, START_Y) #
     map (\<lambda>j. (sampleX j, if reached (v / 100) 1 j then STOP_LOSS_Y else sampleY (v / 100) j))
       [1..<Suc steps]"
  by (simp add: finalLocals_def Let_def protPoints_loop initial_def del: upt_Suc)

lemma stopped_eq: "isStoppedOut_v (finalLocals v) = reached (v / 100) 1 steps"
  by (simp add: finalLocals_def Let_def isStoppedOut_loop initial_def)

lemma stopX_eq:
  "stopOutX_v (finalLocals v) =
     (case find (\<lambda>j. sampleY (v / 100) j \<ge> STOP_LOSS_Y) [1..<Suc steps] of
        None \<Rightarrow> 0 | Some j \<Rightarrow> sampleX j)"
  by (simp add: finalLocals_def Let_def stopOutX_loop initial_def del: upt_Suc
        split: option.split)



lemma nth_from_one:
  assumes "k \<le> steps" "0 < k"
  shows "(a # map g [1..<Suc steps]) ! k = g k"
proof -
  obtain m where k: "k = Suc m" using assms(2) by (cases k) auto
  with assms(1) have "m < length [1..<Suc steps]" by simp
  then have "map g [1..<Suc steps] ! m = g ([1..<Suc steps] ! m)" by (rule nth_map)
  also have "[1..<Suc steps] ! m = 1 + m" using k assms(1) by (intro nth_upt) simp
  finally show ?thesis using k by simp
qed

lemma nth_unprotected:
  "k \<le> steps \<Longrightarrow> unpPoints (finalLocals v) ! k = (sampleX k, sampleY (v / 100) k)"
proof (cases "k = 0")
  case True
  then show ?thesis by (simp add: unprotected_eq sampleX_0 sampleY_0 del: upt_Suc)
next
  case False
  assume "k \<le> steps"
  with False show ?thesis
    unfolding unprotected_eq by (simp only: nth_from_one)
qed


lemma reached_iff: "reached f i j = (\<exists>k. i \<le> k \<and> k \<le> j \<and> STOP_LOSS_Y \<le> sampleY f k)"
  unfolding reached_def by auto

section \<open>Facts about the samples\<close>

lemma consts_chart:
  "WIDTH = 800" "HEIGHT = 350" "START_Y = 150" "STOP_LOSS_Y = 180" "steps = 20" "stepSize = 40"
  by (simp_all add: WIDTH_def HEIGHT_def START_Y_def STOP_LOSS_Y_def STOP_LOSS_DELTA_def
      steps_def stepSize_def)

lemma noise_bounds: "- 10 \<le> noise x \<and> noise x \<le> 10"
  using sin_ge_minus_one[of "x / 50"] sin_le_one[of "x / 50"] by (simp add: noise_def)

lemma crashDrop_zero: "crashDrop 0 x = 0"
  by (simp add: crashDrop_def)

lemma sampleY_zero: "sampleY 0 i = START_Y + noise (sampleX i)"
  using noise_bounds[of "sampleX i"]
  by (simp add: sampleY_def Let_def crashDrop_zero consts_chart)

lemma sampleY_zero_below: "sampleY 0 i < STOP_LOSS_Y"
  using noise_bounds[of "sampleX i"] by (simp add: sampleY_zero consts_chart)

lemma not_reached_zero: "\<not> reached 0 i j"
  using sampleY_zero_below by (auto simp: reached_def not_le simp del: upt_Suc)

lemma sampleX_numeral: "sampleX i = real i * 40"
  by (simp add: sampleX_def consts_chart)

lemma sampleY_steep: "STOP_LOSS_Y \<le> sampleY 100 1"
  using noise_bounds[of "40"]
  by (simp add: sampleY_def Let_def crashDrop_def sampleX_numeral consts_chart power2_eq_square)

lemma reached_steep: "1 \<le> k \<Longrightarrow> reached 100 1 k"
  using sampleY_steep unfolding reached_iff by auto

lemma start_below: "START_Y < STOP_LOSS_Y"
  by (simp add: consts_chart)

lemma find_over_map: "find P (map g xs) = map_option g (find (\<lambda>x. P (g x)) xs)"
  by (induction xs) simp_all

lemma find_unprotected:
  "find (\<lambda>p. STOP_LOSS_Y \<le> snd p) (unpPoints (finalLocals v)) =
     map_option (\<lambda>j. (sampleX j, sampleY (v / 100) j))
       (find (\<lambda>j. STOP_LOSS_Y \<le> sampleY (v / 100) j) [1..<Suc steps])"
  using start_below
  by (simp add: unprotected_eq find_over_map del: upt_Suc)

lemma exists_unprotected:
  "(\<exists>p\<in>set (unpPoints (finalLocals v)). STOP_LOSS_Y \<le> snd p) = reached (v / 100) 1 steps"
  using start_below
  by (auto simp: unprotected_eq reached_def simp del: upt_Suc)


lemma find_steep: "find (\<lambda>j. STOP_LOSS_Y \<le> sampleY 100 j) [1..<Suc steps] = Some 1"
proof -
  have "(1::nat) \<le> steps" by (simp add: consts_chart)
  from steps_upt[OF this] sampleY_steep show ?thesis by simp
qed

lemma find_flat: "find (\<lambda>j. STOP_LOSS_Y \<le> sampleY 0 j) xs = None"
  using sampleY_zero_below by (simp add: find_None_iff not_le)

lemma unpPathStr_body:
  "unpPathStr (body f i s) =
     unpPathStr s @ [L (toFixed1 (sampleX i)) (toFixed1 (sampleY f i))]"
  by (simp add: body_def Let_def)

lemma unpPathStr_loop:
  "unpPathStr (loop f i s) =
     unpPathStr s @ map (\<lambda>j. L (toFixed1 (sampleX j)) (toFixed1 (sampleY f j))) [i..<Suc steps]"
proof (induction f i s rule: loop.induct)
  case (1 f i s)
  show ?case
  proof (cases "i \<le> steps")
    case True
    show ?thesis
      unfolding loop_step[OF True] "1.IH"[OF True] unpPathStr_body steps_upt[OF True] by simp
  next
    case False
    show ?thesis
      unfolding loop_exit[OF False] steps_upt_empty[OF False] by simp
  qed
qed

lemma unpPath_second:
  "unpPath (generatePaths v) ! Suc 0 =
     L (toFixed1 (sampleX (Suc 0))) (toFixed1 (sampleY (v / 100) (Suc 0)))"
proof -
  have "(1::nat) \<le> steps" by (simp add: consts_chart)
  from steps_upt[OF this] show ?thesis
    by (simp add: generatePaths_def finalLocals_def Let_def unpPathStr_loop initial_def)
qed

lemma nth_unprotected_one:
  "unpPoints (finalLocals v) ! Suc 0 = (sampleX (Suc 0), sampleY (v / 100) (Suc 0))"
  by (rule nth_unprotected) (simp add: consts_chart)

lemma sampleY_one: "sampleY f (Suc 0) = min (max (150 + noise 40 + f / 2) 0) 350"
  by (simp add: sampleY_def Let_def sampleX_numeral crashDrop_def consts_chart power2_eq_square)

text \<open>
  The results for the volatilities 200 and 100 differ at the sample after the start: the
  two values of y are 0.5 apart, and so are their renderings with one decimal.
\<close>

lemma paths_differ_at_200:
  "generatePaths 200 \<noteq> generatePaths 100 \<and>
   unpPoints (finalLocals 200) \<noteq> unpPoints (finalLocals 100)"
proof -
  have n: "- 10 \<le> noise 40 \<and> noise 40 \<le> 10" by (rule noise_bounds)
  have y2: "sampleY 2 (Suc 0) = 151 + noise 40" using n by (simp add: sampleY_one)
  have y1: "sampleY 1 (Suc 0) = 301 / 2 + noise 40" using n by (simp add: sampleY_one)
  have "\<lfloor>(151 + noise 40) * 10 + 1 / 2\<rfloor> = \<lfloor>(301 / 2 + noise 40) * 10 + 1 / 2\<rfloor> + 5"
  proof -
    have "(151 + noise 40) * 10 + 1 / 2 = ((301 / 2 + noise 40) * 10 + 1 / 2) + of_int 5"
      by simp
    then show ?thesis by (simp only: floor_add_int)
  qed
  then have "toFixed1 (sampleY 2 (Suc 0)) \<noteq> toFixed1 (sampleY 1 (Suc 0))"
    using n unfolding y2 y1 toFixed1_def by simp
  then have "unpPath (generatePaths 200) ! 1 \<noteq> unpPath (generatePaths 100) ! 1"
    by (simp add: unpPath_second)
  then have a: "generatePaths 200 \<noteq> generatePaths 100" by auto
  have "snd (unpPoints (finalLocals 200) ! 1) \<noteq> snd (unpPoints (finalLocals 100) ! 1)"
    using noise_bounds[of 40] by (simp add: nth_unprotected_one sampleY_one)
  then have b: "unpPoints (finalLocals 200) \<noteq> unpPoints (finalLocals 100)" by auto
  from a b show ?thesis by blast
qed

section \<open>Properties of the crash simulator\<close>

text \<open>
  C2: \<open>isStoppedOut\<close> of the result holds exactly when some sample of the unprotected
  trajectory has a (clamped) y at or beyond the stop-loss threshold \<open>START_Y + 30 = 180\<close>;
  \<open>stopOutX\<close> is the x of the first such sample, and 0 when there is none.
\<close>

theorem stoppedOut_iff_threshold_reached:
  "isStoppedOut (generatePaths v) =
     (\<exists>p\<in>set (unpPoints (finalLocals v)). STOP_LOSS_Y \<le> snd p) \<and>
   stopOutX (generatePaths v) =
     (case find (\<lambda>p. STOP_LOSS_Y \<le> snd p) (unpPoints (finalLocals v)) of
        None \<Rightarrow> 0 | Some p \<Rightarrow> fst p) \<and>
   STOP_LOSS_Y = START_Y + 30 \<and> STOP_LOSS_Y = 180"
proof -
  have a: "isStoppedOut (generatePaths v) = isStoppedOut_v (finalLocals v)"
    by (simp add: generatePaths_def Let_def)
  have b: "stopOutX (generatePaths v) = stopOutX_v (finalLocals v)"
    by (simp add: generatePaths_def Let_def)
  have c: "stopOutX_v (finalLocals v) =
     (case find (\<lambda>p. STOP_LOSS_Y \<le> snd p) (unpPoints (finalLocals v)) of
        None \<Rightarrow> 0 | Some p \<Rightarrow> fst p)"
    unfolding find_unprotected stopX_eq by (simp split: option.split)
  show ?thesis
    unfolding a b stopped_eq exists_unprotected using c by (simp add: consts_chart)
qed

text \<open>The statement at a steep and at a flat input.\<close>

theorem stoppedOut_iff_threshold_reached_witness:
  "isStoppedOut (generatePaths 10000) \<and> stopOutX (generatePaths 10000) = 40 \<and>
   \<not> isStoppedOut (generatePaths 0) \<and> stopOutX (generatePaths 0) = 0"
proof -
  have a: "(\<exists>p\<in>set (unpPoints (finalLocals 10000)). STOP_LOSS_Y \<le> snd p)"
  proof -
    have "1 \<le> steps" by (simp add: consts_chart)
    from reached_steep[OF this] show ?thesis by (simp only: exists_unprotected) simp
  qed
  have b: "\<not> (\<exists>p\<in>set (unpPoints (finalLocals 0)). STOP_LOSS_Y \<le> snd p)"
    using not_reached_zero by (simp add: exists_unprotected)
  have c: "find (\<lambda>p. STOP_LOSS_Y \<le> snd p) (unpPoints (finalLocals 10000)) =
      Some (sampleX 1, sampleY 100 1)"
    using find_steep by (simp add: find_unprotected)
  have d: "find (\<lambda>p. STOP_LOSS_Y \<le> snd p) (unpPoints (finalLocals 0)) = None"
    using find_flat by (simp add: find_unprotected)
  from stoppedOut_iff_threshold_reached[of 10000] stoppedOut_iff_threshold_reached[of 0] a b
  show ?thesis by (simp add: c d sampleX_numeral)
qed








text \<open>
  C6: at volatility 0 the crash drop is 0 at every sample, every unprotected y is
  \<open>150 + sin (x / 50) * 10\<close> and lies strictly below the threshold 180, the result is not
  stopped out, and the protected trajectory equals the unprotected one sample for sample.
\<close>

theorem zero_volatility_never_stops:
  "(\<forall>i\<le>steps. crashDrop (0 / 100) (sampleX i) = 0 \<and>
        snd (unpPoints (finalLocals 0) ! i) = 150 + sin (sampleX i / 50) * 10 \<and>
        snd (unpPoints (finalLocals 0) ! i) < 180) \<and>
   \<not> isStoppedOut (generatePaths 0) \<and>
   protPoints (finalLocals 0) = unpPoints (finalLocals 0) \<and>
   STOP_LOSS_Y = 180"
proof -
  have s: "\<forall>i\<le>steps. crashDrop (0 / 100) (sampleX i) = 0 \<and>
        snd (unpPoints (finalLocals 0) ! i) = 150 + sin (sampleX i / 50) * 10 \<and>
        snd (unpPoints (finalLocals 0) ! i) < 180"
  proof (intro allI impI)
    fix i assume i: "i \<le> steps"
    have "snd (unpPoints (finalLocals 0) ! i) = sampleY 0 i"
      by (simp add: nth_unprotected[OF i])
    then show "crashDrop (0 / 100) (sampleX i) = 0 \<and>
        snd (unpPoints (finalLocals 0) ! i) = 150 + sin (sampleX i / 50) * 10 \<and>
        snd (unpPoints (finalLocals 0) ! i) < 180"
      using sampleY_zero_below[of i]
      by (simp add: crashDrop_zero sampleY_zero noise_def consts_chart)
  qed
  have n: "\<not> isStoppedOut (generatePaths 0)"
    by (simp add: generatePaths_def Let_def stopped_eq not_reached_zero)
  have e: "protPoints (finalLocals 0) = unpPoints (finalLocals 0)"
    by (simp add: protected_eq unprotected_eq not_reached_zero del: upt_Suc)
  from s n e consts_chart(4) show ?thesis by blast
qed

text \<open>The statement at a concrete input.\<close>

theorem zero_volatility_never_stops_witness:
  "snd (unpPoints (finalLocals 0) ! 10) = 150 + sin 8 * 10 \<and>
   snd (unpPoints (finalLocals 0) ! 10) < 180 \<and>
   crashDrop (0 / 100) (sampleX 10) = 0"
proof -
  from zero_volatility_never_stops have "\<forall>i\<le>steps. crashDrop (0 / 100) (sampleX i) = 0 \<and>
        snd (unpPoints (finalLocals 0) ! i) = 150 + sin (sampleX i / 50) * 10 \<and>
        snd (unpPoints (finalLocals 0) ! i) < 180"
    by blast
  moreover have "(10::nat) \<le> steps" by (simp add: consts_chart)
  ultimately have "crashDrop (0 / 100) (sampleX 10) = 0 \<and>
        snd (unpPoints (finalLocals 0) ! 10) = 150 + sin (sampleX 10 / 50) * 10 \<and>
        snd (unpPoints (finalLocals 0) ! 10) < 180"
    by blast
  then show ?thesis by (simp add: sampleX_numeral)
qed



text \<open>
  C7 as stated fails: the result for the volatility 200 is not the result for the clamped
  volatility 100.
\<close>

theorem clamped_volatility_counterexample:
  "generatePaths 200 \<noteq> generatePaths (min (max 200 0) 100) \<and>
   unpPoints (finalLocals 200) \<noteq> unpPoints (finalLocals (min (max 200 0) 100))"
  using paths_differ_at_200 by simp

text \<open>
  C7, as the code has it: \<open>generatePaths\<close> does not clamp its input. For every
  volatility in [0,100] the result is that for \<open>min (max v 0) 100\<close>; for inputs outside
  [0,100] the two results can differ, as they do at the volatility 200.
\<close>

theorem volatility_not_clamped:
  "(0 \<le> v \<and> v \<le> 100 \<longrightarrow>
      generatePaths v = generatePaths (min (max v 0) 100) \<and>
      finalLocals v = finalLocals (min (max v 0) 100)) \<and>
   generatePaths 200 \<noteq> generatePaths (min (max 200 0) 100)"
proof -
  have "generatePaths v = generatePaths (min (max v 0) 100) \<and>
      finalLocals v = finalLocals (min (max v 0) 100)" if "0 \<le> v \<and> v \<le> 100"
  proof -
    from that have "min (max v 0) 100 = v" by simp
    then show ?thesis by simp
  qed
  moreover have "generatePaths 200 \<noteq> generatePaths (min (max 200 0) 100)"
    using paths_differ_at_200 by simp
  ultimately show ?thesis by blast
qed

text \<open>The statement at the volatility 50.\<close>

theorem volatility_not_clamped_witness:
  "(0::real) \<le> 50 \<and> (50::real) \<le> 100 \<and>
   generatePaths 50 = generatePaths (min (max 50 0) 100) \<and>
   finalLocals 50 = finalLocals (min (max 50 0) 100)"
proof -
  have h: "(0::real) \<le> 50 \<and> (50::real) \<le> 100" by simp
  from volatility_not_clamped[of 50] h show ?thesis by blast
qed

end
